theory Spec2Isabelle
  imports Main
begin

section \<open>Python strings\<close>

text \<open>
  A Python \<open>str\<close> is modelled as a \<open>string\<close> with one \<open>char\<close> per code point, so the
  model covers the texts whose code points are below 256. Every character the converter
  looks for is ASCII; the two character classes it uses are given below for that range.
\<close>

definition isspace :: "char \<Rightarrow> bool" where
  \<comment> \<open>\<open>str.isspace\<close> on one code point, also what \<open>\s\<close> matches in a \<open>str\<close> pattern.\<close>
  "isspace c =
     (let n = (of_char c :: nat)
      in (9 \<le> n \<and> n \<le> 13) \<or> (28 \<le> n \<and> n \<le> 32) \<or> n = 133 \<or> n = 160)"

definition isdecimal :: "char \<Rightarrow> bool" where
  \<comment> \<open>what \<open>\d\<close> matches in a \<open>str\<close> pattern\<close>
  "isdecimal c = (let n = (of_char c :: nat) in 48 \<le> n \<and> n \<le> 57)"

definition newline :: char where
  "newline = CHR 0x0A"

definition startswith :: "string \<Rightarrow> string \<Rightarrow> bool" where
  "startswith s p = (take (length p) s = p)"

definition strip :: "string \<Rightarrow> string" where
  "strip s = rev (dropWhile isspace (rev (dropWhile isspace s)))"

fun split :: "string \<Rightarrow> char \<Rightarrow> string list" where
  \<comment> \<open>\<open>s.split(sep)\<close> for a separator of one character\<close>
  "split [] sep = [[]]"
| "split (c # cs) sep =
     (if c = sep then [] # split cs sep
      else (case split cs sep of x # xs \<Rightarrow> (c # x) # xs | [] \<Rightarrow> [[c]]))"

fun join :: "string \<Rightarrow> string list \<Rightarrow> string" where
  "join sep [] = []"
| "join sep [x] = x"
| "join sep (x # y # ys) = x @ sep @ join sep (y # ys)"

function replace :: "string \<Rightarrow> string \<Rightarrow> string \<Rightarrow> string" where
  \<comment> \<open>\<open>s.replace(old, new)\<close>: every occurrence, found left to right, not overlapping\<close>
  "replace s old new =
     (if old = [] then new @ concat (map (\<lambda>c. c # new) s)
      else if s = [] then []
      else if startswith s old then new @ replace (drop (length old) s) old new
      else hd s # replace (tl s) old new)"
  by pat_completeness auto
termination
  by (relation "measure (\<lambda>(s, old, new). length s)") auto

section \<open>The patterns\<close>

text \<open>
  \<open>re.match(r'^\d+\.\s', line)\<close>: the digits are taken greedily and no shorter run can
  be followed by the dot, so the match is the longest run of digits, a dot and one
  whitespace character. The result is the length of the match.
\<close>

definition numbered_match :: "string \<Rightarrow> nat option" where
  "numbered_match line =
     (let ds = takeWhile isdecimal line; rest = dropWhile isdecimal line
      in if ds \<noteq> [] \<and> length rest \<ge> 2 \<and> rest ! 0 = CHR ''.'' \<and> isspace (rest ! 1)
         then Some (length ds + 2) else None)"

text \<open>
  \<open>re.match(r'^!\[(.*)]\((.*)\)$', line)\<close>. The dot matches any character but a newline
  and \<open>$\<close> matches at the end or before a newline that ends the text. Both groups are
  greedy: the first one runs up to the last \<open>](\<close> that still leaves a closing parenthesis
  at the end, and every \<open>](\<close> strictly inside does. \<open>rsplit_bracket\<close> cuts a text at its
  last \<open>](\<close>.
\<close>

fun rsplit_bracket :: "string \<Rightarrow> (string \<times> string) option" where
  "rsplit_bracket [] = None"
| "rsplit_bracket (c # cs) =
     (case rsplit_bracket cs of
        Some (a, b) \<Rightarrow> Some (c # a, b)
      | None \<Rightarrow> if c = CHR '']'' \<and> startswith cs ''('' then Some ([], tl cs) else None)"

definition image_match :: "string \<Rightarrow> (string \<times> string) option" where
  "image_match line =
     (let core = (if line \<noteq> [] \<and> last line = newline then butlast line else line)
      in if newline \<notin> set core \<and> startswith core ''!['' \<and> length core \<ge> 3
            \<and> last core = CHR '')''
         then rsplit_bracket (butlast (drop 2 core)) else None)"

text \<open>
  The three inline patterns \<open>\*\*(.*?)\*\*\<close>, \<open>\*(.*?)\*\<close> and \<open>`(.*?)`\<close> are a
  delimiter, a lazy group and the delimiter again.
\<close>

datatype format_type = bold | italic | code

fun delimiter :: "format_type \<Rightarrow> string" where
  "delimiter bold = ''**''"
| "delimiter italic = ''*''"
| "delimiter code = ''`''"

text \<open>
  \<open>lazy_group d s\<close> is the length of the shortest run of characters other than a newline
  in front of \<open>s\<close> that is followed by \<open>d\<close>, when there is one.
\<close>

fun lazy_group :: "string \<Rightarrow> string \<Rightarrow> nat option" where
  "lazy_group d [] = (if d = [] then Some 0 else None)"
| "lazy_group d (c # cs) =
     (if startswith (c # cs) d then Some 0
      else if c = newline then None
      else map_option Suc (lazy_group d cs))"

record match =
  m_start :: nat
  m_end :: nat
  group1 :: string

definition match_at :: "format_type \<Rightarrow> string \<Rightarrow> nat \<Rightarrow> match option" where
  \<comment> \<open>the match of the pattern that starts at position \<open>pos\<close> of \<open>text\<close>, if any\<close>
  "match_at f text pos =
     (let d = delimiter f; s = drop pos text
      in if startswith s d
         then map_option
                (\<lambda>n. \<lparr>m_start = pos, m_end = pos + length d + n + length d,
                      group1 = take n (drop (length d) s)\<rparr>)
                (lazy_group d (drop (length d) s))
         else None)"

text \<open>
  \<open>re.finditer\<close>: the leftmost match from the current position, then on from its end. No
  match of these patterns is empty.
\<close>

function finditer_from :: "format_type \<Rightarrow> string \<Rightarrow> nat \<Rightarrow> match list" where
  "finditer_from f text pos =
     (if length text \<le> pos then []
      else case match_at f text pos of
             Some m \<Rightarrow> m # finditer_from f text (m_end m)
           | None \<Rightarrow> finditer_from f text (Suc pos))"
  by pat_completeness auto
termination
proof (relation "measure (\<lambda>(f, text, pos). length text - pos)")
  fix f :: format_type and s :: string and pos :: nat and m :: match
  assume "\<not> length s \<le> pos" and "match_at f s pos = Some m"
  then show "((f, s, m_end m), (f, s, pos)) \<in> measure (\<lambda>(f, text, pos). length text - pos)"
    by (cases f) (auto simp: match_at_def Let_def split: if_splits)
qed auto

definition finditer :: "format_type \<Rightarrow> string \<Rightarrow> match list" where
  "finditer f text = finditer_from f text 0"

section \<open>The document\<close>

text \<open>
  A run of a paragraph is its text and the formatting the converter gave it: \<open>None\<close> for
  a plain \<open>add_run(text)\<close>, \<open>Some bold\<close> for \<open>.bold = True\<close>, \<open>Some italic\<close> for
  \<open>.italic = True\<close> and \<open>Some code\<close> for the font \<open>Courier New\<close>.
\<close>

type_synonym run = "string \<times> format_type option"

text \<open>The elements the converter appends to the document, one constructor per kind of call.\<close>

datatype element =
    Heading nat string      \<comment> \<open>\<open>doc.add_heading(text, level)\<close>, written level first\<close>
  | ListBullet string       \<comment> \<open>\<open>doc.add_paragraph(text, style='List Bullet')\<close>\<close>
  | ListNumber string       \<comment> \<open>\<open>doc.add_paragraph(text, style='List Number')\<close>\<close>
  | CodeBlock string        \<comment> \<open>a \<open>No Spacing\<close> paragraph with one run in Courier New, 9 pt\<close>
  | Picture string          \<comment> \<open>a centred paragraph holding the picture read from the path\<close>
  | PictureFailed           \<comment> \<open>the centred paragraph left empty when \<open>add_picture\<close> raised\<close>
  | Caption string          \<comment> \<open>a centred paragraph, italic, 10 pt\<close>
  | TextParagraph string    \<comment> \<open>\<open>doc.add_paragraph(text)\<close>\<close>
  | EmptyParagraph          \<comment> \<open>\<open>doc.add_paragraph()\<close>\<close>
  | RunsParagraph "run list" \<comment> \<open>\<open>doc.add_paragraph()\<close> and the runs added to it\<close>

text \<open>
  What the call reads from outside: the clock, the file system and the libraries. An
  exception is kept as the text \<open>str(e)\<close>, the only thing the handlers use. The calls
  that build the document in memory are not of this repository; \<open>pass_raises\<close> stands
  for an exception out of one of them during the pass over the lines (python-docx refuses
  a text that XML cannot hold, for instance), as a function of the lines. The pass itself
  is modelled for the case that they all return.
\<close>

record env =
  timestamp :: string                             \<comment> \<open>\<open>datetime.now().strftime('%Y%m%d_%H%M%S')\<close>\<close>
  markdown2_raises :: "string \<Rightarrow> string option"     \<comment> \<open>\<open>markdown2.markdown(content, ...)\<close>\<close>
  pass_raises :: "string list \<Rightarrow> string option"    \<comment> \<open>a document call raising during the pass\<close>
  path_exists :: "string \<Rightarrow> bool"                   \<comment> \<open>\<open>os.path.exists(path)\<close>\<close>
  add_picture_raises :: "string \<Rightarrow> string option"   \<comment> \<open>\<open>run.add_picture(path, ...)\<close>\<close>
  mkdir_raises :: "string \<Rightarrow> string option"         \<comment> \<open>creating a directory that has a name\<close>
  save_raises :: "string \<Rightarrow> string option"          \<comment> \<open>\<open>doc.save(path)\<close>\<close>

section \<open>Inline formatting of a paragraph\<close>

definition all_matches :: "string \<Rightarrow> (format_type \<times> match) list" where
  "all_matches text =
     (let ms1 = foldl (\<lambda>acc m. acc @ [(bold, m)]) [] (finditer bold text);
          ms2 = foldl (\<lambda>acc m.
                   if \<not> list_ex (\<lambda>b. m_start (snd b) \<le> m_start m \<and> m_start m < m_end (snd b))
                             (filter (\<lambda>b. fst b = bold) acc)
                   then acc @ [(italic, m)] else acc) ms1 (finditer italic text);
          ms3 = foldl (\<lambda>acc m. acc @ [(code, m)]) ms2 (finditer code text)
      in sort_key (\<lambda>x. m_start (snd x)) ms3)"

fun add_runs :: "string \<Rightarrow> nat \<Rightarrow> (format_type \<times> match) list \<Rightarrow> run list" where
  "add_runs text current_pos [] =
     (if current_pos < length text then [(drop current_pos text, None)] else [])"
| "add_runs text current_pos ((format_type, m) # ms) =
     (if m_start m > current_pos
      then [(take (m_start m - current_pos) (drop current_pos text), None)] else [])
     @ [(group1 m, Some format_type)]
     @ add_runs text (m_end m) ms"

definition paragraph_runs :: "string \<Rightarrow> run list" where
  "paragraph_runs text =
     (if all_matches text \<noteq> [] then add_runs text 0 (all_matches text)
      else [(text, None)])"

section \<open>One line of the pass\<close>

record pstate =
  code_block :: bool
  code_content :: "string list"
  doc :: "element list"

definition add :: "element list \<Rightarrow> pstate \<Rightarrow> pstate" where
  "add es st = st\<lparr>doc := doc st @ es\<rparr>"

text \<open>
  The body of the loop is two early exits and an \<open>if\<close>/\<open>elif\<close> chain. \<open>classify\<close> is
  the conditions of that chain in the order the code tests them and gives the branch that
  runs; \<open>branch_body\<close> is what the branch does.
\<close>

datatype branch =
    Fence | CodeLine | Header nat | BulletPoint | NumberedList | Image | Table
  | EmptyLine | RegularParagraph

definition classify :: "bool \<Rightarrow> string \<Rightarrow> branch" where
  "classify in_code line =
     (if startswith line ''```'' then Fence
      else if in_code then CodeLine
      else if startswith line ''# '' then Header 1
      else if startswith line ''## '' then Header 2
      else if startswith line ''### '' then Header 3
      else if startswith line ''#### '' then Header 4
      else if startswith line ''- '' \<or> startswith line ''* '' then BulletPoint
      else if numbered_match line \<noteq> None then NumberedList
      else if image_match line \<noteq> None then Image
      else if CHR ''|'' \<in> set line \<and> startswith (strip line) ''|'' then Table
      else if strip line = [] then EmptyLine
      else RegularParagraph)"

definition numbered_sub :: "string \<Rightarrow> string" where
  \<comment> \<open>\<open>re.sub(r'^\d+\.\s', '', line)\<close>: the pattern can match at the start only\<close>
  "numbered_sub line = (case numbered_match line of Some n \<Rightarrow> drop n line | None \<Rightarrow> line)"

definition rewrite_img_path :: "string \<Rightarrow> string" where
  "rewrite_img_path img_path =
     (if startswith img_path ''../charts/''
      then replace img_path ''../charts/'' ''outputs/charts/'' else img_path)"

definition image_elements :: "env \<Rightarrow> string \<Rightarrow> string \<Rightarrow> element list" where
  "image_elements env alt_text img_path0 =
     (let img_path = rewrite_img_path img_path0
      in if path_exists env img_path
         then (case add_picture_raises env img_path of
                 None \<Rightarrow> Picture img_path # (if alt_text \<noteq> [] then [Caption alt_text] else [])
               | Some img_error \<Rightarrow>
                   [PictureFailed,
                    TextParagraph (''[Image: '' @ alt_text @ '' - Could not load: ''
                                   @ img_error @ '']'')])
         else [TextParagraph (''[Image: '' @ alt_text @ '' - File not found: ''
                              @ img_path @ '']'')])"

definition cells :: "string \<Rightarrow> string list" where
  \<comment> \<open>\<open>[cell.strip() for cell in line.split('|')[1:-1]]\<close>\<close>
  "cells line = map strip (butlast (tl (split line (CHR ''|''))))"

definition separator_line :: "string \<Rightarrow> bool" where
  \<comment> \<open>\<open>all(c == '-' or c == '---' for c in ''.join(cells).replace('-', ''))\<close>\<close>
  "separator_line line =
     list_all (\<lambda>c. [c] = ''-'' \<or> [c] = ''---'') (replace (concat (cells line)) ''-'' [])"

definition branch_body :: "env \<Rightarrow> pstate \<Rightarrow> string \<Rightarrow> branch \<Rightarrow> pstate" where
  "branch_body env st line b =
     (case b of
        Fence \<Rightarrow>
          (if \<not> code_block st then st\<lparr>code_block := True, code_content := []\<rparr>
           else if code_content st \<noteq> []
                then add [CodeBlock (join [newline] (code_content st))] (st\<lparr>code_block := False\<rparr>)
                else st\<lparr>code_block := False\<rparr>)
      | CodeLine \<Rightarrow> st\<lparr>code_content := code_content st @ [line]\<rparr>
      | Header level \<Rightarrow> add [Heading level (drop (level + 1) line)] st
      | BulletPoint \<Rightarrow> add [ListBullet (drop 2 line)] st
      | NumberedList \<Rightarrow> add [ListNumber (numbered_sub line)] st
      | Image \<Rightarrow>
          (case image_match line of
             Some (alt_text, img_path) \<Rightarrow> add (image_elements env alt_text img_path) st
           | None \<Rightarrow> st)
      | Table \<Rightarrow> (if separator_line line then st else add [TextParagraph line] st)
      | EmptyLine \<Rightarrow> add [EmptyParagraph] st
      | RegularParagraph \<Rightarrow> add [RunsParagraph (paragraph_runs line)] st)"

definition process_line :: "env \<Rightarrow> pstate \<Rightarrow> string \<Rightarrow> pstate" where
  "process_line env st line = branch_body env st line (classify (code_block st) line)"

definition process_lines :: "env \<Rightarrow> pstate \<Rightarrow> string list \<Rightarrow> pstate" where
  "process_lines env st lines = foldl (process_line env) st lines"

section \<open>The call\<close>

definition dirname :: "string \<Rightarrow> string" where
  \<comment> \<open>\<open>os.path.dirname\<close> of \<open>posixpath\<close>\<close>
  "dirname p =
     (let head = rev (dropWhile (\<lambda>c. c \<noteq> CHR ''/'') (rev p))
      in if head \<noteq> [] \<and> head \<noteq> replicate (length head) (CHR ''/'')
         then rev (dropWhile (\<lambda>c. c = CHR ''/'') (rev head)) else head)"

text \<open>
  \<open>os.makedirs(name, exist_ok=True)\<close>. For the empty name there is no parent to create,
  \<open>mkdir('')\<close> fails with \<open>ENOENT\<close> and, the empty name being no directory, the
  \<open>FileNotFoundError\<close> is raised again. Any other name is left to the file system.
\<close>

definition makedirs :: "env \<Rightarrow> string \<Rightarrow> string option" where
  "makedirs env name =
     (if name = [] then Some (''[Errno 2] No such file or directory: '' @ [CHR 0x27, CHR 0x27])
      else mkdir_raises env name)"

text \<open>What a call did to the file system, in order.\<close>

datatype event =
    DirsEnsured string                \<comment> \<open>\<open>os.makedirs\<close> returned\<close>
  | Saved string "element list"       \<comment> \<open>\<open>doc.save\<close> wrote the document to the path\<close>
  | SaveFailed string                 \<comment> \<open>\<open>doc.save\<close> raised\<close>

definition initial_state :: pstate where
  "initial_state =
     \<lparr>code_block = False, code_content = [], doc = [Heading 0 ''Data Analysis Report'']\<rparr>"

definition resolve_output_path :: "env \<Rightarrow> string option \<Rightarrow> string" where
  "resolve_output_path env output_path =
     (case output_path of
        None \<Rightarrow> ''outputs/reports/data_analysis_report_'' @ timestamp env @ ''.docx''
      | Some p \<Rightarrow> p)"

text \<open>The body of the \<open>try\<close>: \<open>Inl\<close> is an exception that reached the handler.\<close>

definition try_body :: "env \<Rightarrow> string \<Rightarrow> string option \<Rightarrow> (string + string) \<times> event list" where
  "try_body env markdown_content output_path0 =
     (let output_path = resolve_output_path env output_path0
      in case markdown2_raises env markdown_content of
           Some e \<Rightarrow> (Inl e, [])
         | None \<Rightarrow>
             (case pass_raises env (split markdown_content newline) of
                Some e \<Rightarrow> (Inl e, [])
              | None \<Rightarrow>
                  (let st = process_lines env initial_state (split markdown_content newline)
                   in case makedirs env (dirname output_path) of
                        Some e \<Rightarrow> (Inl e, [])
                      | None \<Rightarrow>
                          (case save_raises env output_path of
                             Some e \<Rightarrow>
                               (Inl e,
                                [DirsEnsured (dirname output_path), SaveFailed output_path])
                           | None \<Rightarrow>
                               (Inr (''Successfully converted markdown to DOCX: ''
                                     @ output_path),
                                [DirsEnsured (dirname output_path),
                                 Saved output_path (doc st)])))))"

definition MarkdownToDocxTool_run :: "env \<Rightarrow> string \<Rightarrow> string option \<Rightarrow> string \<times> event list" where
  "MarkdownToDocxTool_run env markdown_content output_path =
     (case try_body env markdown_content output_path of
        (Inr message, events) \<Rightarrow> (message, events)
      | (Inl e, events) \<Rightarrow> (''Error converting markdown to DOCX: '' @ e, events))"

section \<open>The classifier as the specification words it\<close>

text \<open>
  The specification lists the rules in the order fence, code line, heading with the longest
  prefix first, bullet, numbered item, image, table row, blank line, paragraph, and the
  first rule that applies wins. \<open>spec_classify\<close> follows that wording; it is compared
  with \<open>classify\<close> below.
\<close>

definition spec_classify :: "bool \<Rightarrow> string \<Rightarrow> branch" where
  "spec_classify in_code line =
     (if startswith line ''```'' then Fence
      else if in_code then CodeLine
      else if startswith line ''#### '' then Header 4
      else if startswith line ''### '' then Header 3
      else if startswith line ''## '' then Header 2
      else if startswith line ''# '' then Header 1
      else if startswith line ''- '' \<or> startswith line ''* '' then BulletPoint
      else if numbered_match line \<noteq> None then NumberedList
      else if image_match line \<noteq> None then Image
      else if CHR ''|'' \<in> set line \<and> startswith (strip line) ''|'' then Table
      else if strip line = [] then EmptyLine
      else RegularParagraph)"

section \<open>The text of a paragraph as the specification words it\<close>

text \<open>
  The specification asks that the texts of the runs, put together, be the line with only
  its delimiter characters removed. \<open>delimiter_at ms i\<close> says that position \<open>i\<close> holds
  a character of the opening or of the closing delimiter of one of the matches \<open>ms\<close>,
  and \<open>without_delimiters\<close> is the line without the characters at these positions.
  \<open>separate_from pos ms\<close> says that the matches, in their order, start at \<open>pos\<close> or
  later and that none starts before the one in front of it has ended. \<open>well_formed\<close>
  says that a match lies within the text, has room for its two delimiters and captures
  the text between them.
\<close>

definition delimiter_at :: "(format_type \<times> match) list \<Rightarrow> nat \<Rightarrow> bool" where
  "delimiter_at ms i =
     list_ex (\<lambda>x. (m_start (snd x) \<le> i \<and> i < m_start (snd x) + length (delimiter (fst x)))
                 \<or> (m_end (snd x) - length (delimiter (fst x)) \<le> i \<and> i < m_end (snd x))) ms"

definition without_delimiters :: "string \<Rightarrow> (format_type \<times> match) list \<Rightarrow> string" where
  "without_delimiters line ms =
     map (nth line) (filter (\<lambda>i. \<not> delimiter_at ms i) [0..<length line])"

fun separate_from :: "nat \<Rightarrow> (format_type \<times> match) list \<Rightarrow> bool" where
  "separate_from pos [] = True"
| "separate_from pos (x # ms) = (pos \<le> m_start (snd x) \<and> separate_from (m_end (snd x)) ms)"

definition well_formed :: "string \<Rightarrow> format_type \<times> match \<Rightarrow> bool" where
  "well_formed t x =
     (m_start (snd x) + 2 * length (delimiter (fst x)) \<le> m_end (snd x)
      \<and> m_end (snd x) \<le> length t
      \<and> group1 (snd x) =
          take (m_end (snd x) - m_start (snd x) - 2 * length (delimiter (fst x)))
            (drop (m_start (snd x) + length (delimiter (fst x))) t))"

text \<open>An environment for the examples: no file exists and nothing raises.\<close>

definition sample_env :: env where
  "sample_env =
     \<lparr>timestamp = ''20240101_120000'', markdown2_raises = (\<lambda>_. None),
      pass_raises = (\<lambda>_. None), path_exists = (\<lambda>_. False), add_picture_raises = (\<lambda>_. None),
      mkdir_raises = (\<lambda>_. None), save_raises = (\<lambda>_. None)\<rparr>"

section \<open>Basic facts\<close>

declare replace.simps [simp del] finditer_from.simps [simp del]

lemma startswith_iff: "startswith s p \<longleftrightarrow> (\<exists>r. s = p @ r)"
proof
  assume "startswith s p"
  then have "s = p @ drop (length p) s"
    by (metis append_take_drop_id startswith_def)
  then show "\<exists>r. s = p @ r" ..
next
  assume "\<exists>r. s = p @ r"
  then show "startswith s p"
    by (auto simp: startswith_def)
qed

lemma startswith_simps [simp]:
  "startswith s []"
  "\<not> startswith [] (d # ds)"
  "startswith (c # cs) (d # ds) \<longleftrightarrow> c = d \<and> startswith cs ds"
  by (auto simp: startswith_def)

lemma process_lines_append:
  "process_lines env st (xs @ ys) = process_lines env (process_lines env st xs) ys"
  by (simp add: process_lines_def)

lemma process_lines_Cons:
  "process_lines env st (x # xs) = process_lines env (process_line env st x) xs"
  by (simp add: process_lines_def)

section \<open>The call returns a message\<close>




section \<open>An output path without a directory\<close>

lemma dirname_no_slash: "CHR ''/'' \<notin> set p \<Longrightarrow> dirname p = []"
proof -
  assume "CHR ''/'' \<notin> set p"
  then have "dropWhile (\<lambda>c. c \<noteq> CHR ''/'') (rev p) = []"
    by auto
  then show ?thesis
    by (simp add: dirname_def)
qed

text \<open>
  C10. When the given output path has no directory part (no slash, so that its
  \<open>dirname\<close> is empty), the call writes nothing and returns an error message; when the
  markdown was processed without an exception, so that the document was built, that
  message is the one of the failed directory creation.
\<close>

theorem bare_file_name_fails:
  "CHR ''/'' \<notin> set p \<Longrightarrow>
     snd (MarkdownToDocxTool_run env markdown_content (Some p)) = []
     \<and> (\<exists>e. fst (MarkdownToDocxTool_run env markdown_content (Some p)) =
            ''Error converting markdown to DOCX: '' @ e)
     \<and> (markdown2_raises env markdown_content = None
          \<and> pass_raises env (split markdown_content newline) = None \<longrightarrow>
          MarkdownToDocxTool_run env markdown_content (Some p) =
            (''Error converting markdown to DOCX: [Errno 2] No such file or directory: ''
             @ [CHR 0x27, CHR 0x27], []))"
proof -
  assume "CHR ''/'' \<notin> set p"
  then have "dirname p = []"
    by (rule dirname_no_slash)
  then show ?thesis
    unfolding MarkdownToDocxTool_run_def try_body_def Let_def resolve_output_path_def
      makedirs_def
    by (simp split: option.split)
qed

theorem bare_file_name_fails_witness:
  "CHR ''/'' \<notin> set ''report.docx''
   \<and> markdown2_raises sample_env ''# Title'' = None
   \<and> pass_raises sample_env (split ''# Title'' newline) = None
   \<and> MarkdownToDocxTool_run sample_env ''# Title'' (Some ''report.docx'') =
       (''Error converting markdown to DOCX: [Errno 2] No such file or directory: ''
        @ [CHR 0x27, CHR 0x27], [])"
  using bare_file_name_fails [of "''report.docx''" sample_env "''# Title''"]
  by (simp add: sample_env_def)

section \<open>Classification of a line\<close>

text \<open>
  C3. Every line gets exactly one branch, and it is the one the precedence of the
  specification gives: fence, then the code-block state, then heading, bullet, numbered
  item, image, table row, blank line, paragraph. The code tests the heading prefixes
  shortest first and the specification longest first; the two agree on every line. A line
  that begins with \<open>#### \<close> outside a code block is a heading of level 4 whose text is
  the rest of the line.
\<close>

theorem classify_precedence:
  "classify in_code line = spec_classify in_code line
   \<and> classify False (''#### '' @ rest) = Header 4
   \<and> process_line env (st\<lparr>code_block := False\<rparr>) (''#### '' @ rest) =
       add [Heading 4 rest] (st\<lparr>code_block := False\<rparr>)"
proof (intro conjI)
  show "classify in_code line = spec_classify in_code line"
    unfolding classify_def spec_classify_def
    by (auto simp: startswith_iff)
  show "classify False (''#### '' @ rest) = Header 4"
    by (simp add: classify_def)
  show "process_line env (st\<lparr>code_block := False\<rparr>) (''#### '' @ rest) =
       add [Heading 4 rest] (st\<lparr>code_block := False\<rparr>)"
    by (simp add: process_line_def classify_def branch_body_def)
qed

section \<open>Fenced code blocks\<close>

lemma code_block_process_line:
  "code_block (process_line env st line) =
     (if startswith line ''```'' then \<not> code_block st else code_block st)"
  unfolding process_line_def classify_def branch_body_def add_def
  by (simp split: option.split prod.split)

lemma code_block_process_lines:
  "code_block (process_lines env st lines) =
     (code_block st \<noteq> odd (length (filter (\<lambda>l. startswith l ''```'') lines)))"
  unfolding process_lines_def
  by (induction lines arbitrary: st) (auto simp: code_block_process_line)

lemma process_lines_inside:
  "code_block st \<Longrightarrow> list_all (\<lambda>l. \<not> startswith l ''```'') body \<Longrightarrow>
     process_lines env st body = st\<lparr>code_content := code_content st @ body\<rparr>"
  unfolding process_lines_def
proof (induction body arbitrary: st)
  case Nil
  then show ?case by simp
next
  case (Cons l body)
  have "process_line env st l = st\<lparr>code_content := code_content st @ [l]\<rparr>"
    using Cons.prems by (simp add: process_line_def classify_def branch_body_def)
  then show ?case
    using Cons by simp
qed

lemma fence_pair:
  assumes "\<not> code_block st" "startswith f1 ''```''" "startswith f2 ''```''"
    "list_all (\<lambda>l. \<not> startswith l ''```'') body"
  shows "process_lines env st (f1 # body @ [f2]) =
      (if body \<noteq> []
       then add [CodeBlock (join [newline] body)]
              (st\<lparr>code_block := False, code_content := body\<rparr>)
       else st\<lparr>code_block := False, code_content := []\<rparr>)"
proof -
  let ?s1 = "st\<lparr>code_block := True, code_content := []\<rparr>"
  have 1: "process_line env st f1 = ?s1"
    using assms by (simp add: process_line_def classify_def branch_body_def)
  have 2: "process_lines env ?s1 body = ?s1\<lparr>code_content := body\<rparr>"
    using process_lines_inside [of ?s1 body env] assms by simp
  have 3: "process_line env (?s1\<lparr>code_content := body\<rparr>) f2 =
      (if body \<noteq> []
       then add [CodeBlock (join [newline] body)]
              (st\<lparr>code_block := False, code_content := body\<rparr>)
       else st\<lparr>code_block := False, code_content := []\<rparr>)"
    using assms by (simp add: process_line_def classify_def branch_body_def add_def)
  show ?thesis
    by (simp only: process_lines_Cons process_lines_append 1 2 3) (simp add: process_lines_def 3)
qed

text \<open>
  C4. The flag \<open>code_block\<close> changes on the lines that start with three backticks and on
  no other line. After a pass over lines with an even number of such markers it is false.
  For a pair of markers met outside a code block with no marker between them, the lines
  between them are kept as they are and in order; the closing marker appends one
  \<open>CodeBlock\<close> holding them joined by newlines when there is at least one such line, and
  appends nothing when there is none.
\<close>

theorem fence_toggling:
  "code_block (process_line env st line) =
     (if startswith line ''```'' then \<not> code_block st else code_block st)
   \<and> (even (length (filter (\<lambda>l. startswith l ''```'') lines)) \<longrightarrow>
        \<not> code_block (process_lines env initial_state lines))
   \<and> (\<not> code_block st \<and> startswith f1 ''```'' \<and> startswith f2 ''```''
        \<and> list_all (\<lambda>l. \<not> startswith l ''```'') body \<longrightarrow>
        process_lines env st (f1 # body @ [f2]) =
          (if body \<noteq> []
           then add [CodeBlock (join [newline] body)]
                  (st\<lparr>code_block := False, code_content := body\<rparr>)
           else st\<lparr>code_block := False, code_content := []\<rparr>))"
proof (intro conjI impI)
  show "code_block (process_line env st line) =
     (if startswith line ''```'' then \<not> code_block st else code_block st)"
    by (rule code_block_process_line)
  show "\<not> code_block (process_lines env initial_state lines)"
    if "even (length (filter (\<lambda>l. startswith l ''```'') lines))"
    using that by (simp add: code_block_process_lines initial_state_def)
  show "process_lines env st (f1 # body @ [f2]) =
          (if body \<noteq> []
           then add [CodeBlock (join [newline] body)]
                  (st\<lparr>code_block := False, code_content := body\<rparr>)
           else st\<lparr>code_block := False, code_content := []\<rparr>)"
    if "\<not> code_block st \<and> startswith f1 ''```'' \<and> startswith f2 ''```''
        \<and> list_all (\<lambda>l. \<not> startswith l ''```'') body"
    using that fence_pair by blast
qed

theorem fence_toggling_witness:
  "even (length (filter (\<lambda>l. startswith l ''```'') [''```python'', ''x = 1'', '''', ''# y'', ''```'']))
   \<and> \<not> code_block (process_lines sample_env initial_state [''```python'', ''x = 1'', '''', ''# y'', ''```''])
   \<and> \<not> code_block initial_state \<and> startswith ''```python'' ''```'' \<and> startswith ''```'' ''```''
   \<and> list_all (\<lambda>l. \<not> startswith l ''```'') [''x = 1'', '''', ''# y'']
   \<and> doc (process_lines sample_env initial_state (''```python'' # [''x = 1'', '''', ''# y''] @ [''```''])) =
       [Heading 0 ''Data Analysis Report'',
        CodeBlock (''x = 1'' @ [newline] @ [newline] @ ''# y'')]"
  using fence_toggling [of sample_env initial_state "''```''"
      "[''```python'', ''x = 1'', '''', ''# y'', ''```'']" "''```python''" "''```''" "[''x = 1'', '''', ''# y'']"]
  by (simp add: initial_state_def add_def)

section \<open>Saving the document\<close>

text \<open>
  C9. The output file is written exactly once, as the last step of a call that does not
  fail. When markdown2, the pass over the lines or the creation of the directory raises,
  which is before the save, nothing is written and the message is an error message. When
  none of them raises, the save is attempted as the last step: if it returns, the log of
  the call ends with the one saved document, which holds the result of the pass, and the
  message is the success message; if it raises, the message reports it. No call has any
  other outcome, so no log holds two saves or a save that is not its last entry.
\<close>

theorem saved_once_at_the_end:
  "(let p = resolve_output_path env output_path;
        lines = split markdown_content newline;
        r = MarkdownToDocxTool_run env markdown_content output_path
    in (markdown2_raises env markdown_content \<noteq> None \<or> pass_raises env lines \<noteq> None
          \<or> makedirs env (dirname p) \<noteq> None
          \<longrightarrow> snd r = [] \<and> (\<exists>e. fst r = ''Error converting markdown to DOCX: '' @ e))
       \<and> (markdown2_raises env markdown_content = None \<and> pass_raises env lines = None
          \<and> makedirs env (dirname p) = None \<and> save_raises env p = Some e
          \<longrightarrow> snd r = [DirsEnsured (dirname p), SaveFailed p]
              \<and> fst r = ''Error converting markdown to DOCX: '' @ e)
       \<and> (markdown2_raises env markdown_content = None \<and> pass_raises env lines = None
          \<and> makedirs env (dirname p) = None \<and> save_raises env p = None
          \<longrightarrow> snd r = [DirsEnsured (dirname p),
                        Saved p (doc (process_lines env initial_state lines))]
              \<and> fst r = ''Successfully converted markdown to DOCX: '' @ p)
       \<and> ((snd r = [] \<and> (\<exists>e. fst r = ''Error converting markdown to DOCX: '' @ e))
          \<or> (snd r = [DirsEnsured (dirname p), SaveFailed p]
              \<and> (\<exists>e. save_raises env p = Some e
                      \<and> fst r = ''Error converting markdown to DOCX: '' @ e))
          \<or> (snd r = [DirsEnsured (dirname p),
                       Saved p (doc (process_lines env initial_state lines))]
              \<and> fst r = ''Successfully converted markdown to DOCX: '' @ p)))"
  unfolding MarkdownToDocxTool_run_def try_body_def Let_def
  by (auto split: option.split)

theorem saved_once_at_the_end_witness:
  "makedirs sample_env (dirname (resolve_output_path sample_env (Some ''report.docx''))) \<noteq> None
   \<and> snd (MarkdownToDocxTool_run sample_env ''# Title'' (Some ''report.docx'')) = []
   \<and> save_raises (sample_env\<lparr>save_raises := (\<lambda>_. Some ''disk full'')\<rparr>) ''out/r.docx''
       = Some ''disk full''
   \<and> MarkdownToDocxTool_run (sample_env\<lparr>save_raises := (\<lambda>_. Some ''disk full'')\<rparr>)
        ''# Title'' (Some ''out/r.docx'') =
       (''Error converting markdown to DOCX: disk full'',
        [DirsEnsured ''out'', SaveFailed ''out/r.docx''])
   \<and> markdown2_raises sample_env ''# Title'' = None
   \<and> pass_raises sample_env (split ''# Title'' newline) = None
   \<and> makedirs sample_env (dirname ''out/r.docx'') = None
   \<and> save_raises sample_env ''out/r.docx'' = None
   \<and> MarkdownToDocxTool_run sample_env ''# Title'' (Some ''out/r.docx'') =
       (''Successfully converted markdown to DOCX: out/r.docx'',
        [DirsEnsured ''out'',
         Saved ''out/r.docx'' [Heading 0 ''Data Analysis Report'', Heading 1 ''Title'']])"
proof -
  let ?full = "sample_env\<lparr>save_raises := (\<lambda>_. Some ''disk full'')\<rparr>"
  have d: "dirname ''out/r.docx'' = ''out''"
    by code_simp
  have 1: "makedirs sample_env (dirname (resolve_output_path sample_env (Some ''report.docx'')))
      \<noteq> None"
    by (simp add: makedirs_def dirname_def resolve_output_path_def)
  have p: "resolve_output_path env (Some ''out/r.docx'') = ''out/r.docx''" for env
    by (simp add: resolve_output_path_def)
  have ok: "markdown2_raises sample_env ''# Title'' = None"
    "pass_raises sample_env (split ''# Title'' newline) = None"
    "makedirs sample_env ''out'' = None" "save_raises sample_env ''out/r.docx'' = None"
    by (simp_all add: sample_env_def makedirs_def)
  have full: "markdown2_raises ?full ''# Title'' = None"
    "pass_raises ?full (split ''# Title'' newline) = None"
    "makedirs ?full ''out'' = None" "save_raises ?full ''out/r.docx'' = Some ''disk full''"
    by (simp_all add: sample_env_def makedirs_def)
  have l: "doc (process_lines sample_env initial_state (split ''# Title'' newline)) =
      [Heading 0 ''Data Analysis Report'', Heading 1 ''Title'']"
    by code_simp
  note inst = saved_once_at_the_end [where markdown_content = "''# Title''"]
  have a: "snd (MarkdownToDocxTool_run sample_env ''# Title'' (Some ''report.docx'')) = []"
    using inst [of sample_env "Some ''report.docx''"] 1 by (simp add: Let_def)
  have b: "MarkdownToDocxTool_run ?full ''# Title'' (Some ''out/r.docx'') =
       (''Error converting markdown to DOCX: disk full'',
        [DirsEnsured ''out'', SaveFailed ''out/r.docx''])"
    using inst [of ?full "Some ''out/r.docx''" "''disk full''"] full
    by (simp add: Let_def p d prod_eq_iff)
  have c: "MarkdownToDocxTool_run sample_env ''# Title'' (Some ''out/r.docx'') =
       (''Successfully converted markdown to DOCX: out/r.docx'',
        [DirsEnsured ''out'',
         Saved ''out/r.docx'' [Heading 0 ''Data Analysis Report'', Heading 1 ''Title'']])"
    using inst [of sample_env "Some ''out/r.docx''"] ok
    by (simp add: Let_def p d l prod_eq_iff del: split.simps)
  show ?thesis
    using 1 a b c ok full by (simp add: d)
qed

section \<open>Table rows\<close>

lemma replace_single_delete:
  "replace s [d] [] = filter (\<lambda>c. c \<noteq> d) s"
proof (induction s)
  case Nil
  show ?case by (simp add: replace.simps [of "[]"])
next
  case (Cons c s)
  then show ?case by (simp add: replace.simps [of "c # s"])
qed

lemma separator_line_iff:
  "separator_line line \<longleftrightarrow> (\<forall>c \<in> set (cells line). set c \<subseteq> {CHR ''-''})"
proof -
  have "separator_line line \<longleftrightarrow>
      list_all (\<lambda>c. c = CHR ''-'') (filter (\<lambda>c. c \<noteq> CHR ''-'') (concat (cells line)))"
    unfolding separator_line_def replace_single_delete by simp
  also have "\<dots> \<longleftrightarrow> (\<forall>c \<in> set (concat (cells line)). c = CHR ''-'')"
    unfolding list_all_iff by auto
  also have "\<dots> \<longleftrightarrow> (\<forall>c \<in> set (cells line). set c \<subseteq> {CHR ''-''})"
    by auto
  finally show ?thesis .
qed

lemma strip_startswith:
  assumes "startswith (strip line) [d]"
  shows "\<exists>ws r. line = ws @ d # r \<and> list_all isspace ws"
proof -
  let ?t = "dropWhile isspace line"
  have pre: "?t = rev (dropWhile isspace (rev ?t)) @ rev (takeWhile isspace (rev ?t))"
    by (metis rev_append rev_rev_ident takeWhile_dropWhile_id)
  from assms obtain r where "strip line = d # r"
    by (auto simp: startswith_iff)
  then have "?t = d # r @ rev (takeWhile isspace (rev ?t))"
    using pre by (simp add: strip_def)
  then have "line = takeWhile isspace line @ d # (r @ rev (takeWhile isspace (rev ?t)))"
    by (metis takeWhile_dropWhile_id)
  moreover have "list_all isspace (takeWhile isspace line)"
    by (simp add: list_all_iff) (meson set_takeWhileD)
  ultimately show ?thesis by blast
qed

lemma classify_other_first_char:
  assumes "c \<notin> set ''`#-*!''" "\<not> isdecimal c"
  shows "classify False (c # r) =
     (if CHR ''|'' \<in> set (c # r) \<and> startswith (strip (c # r)) ''|'' then Table
      else if strip (c # r) = [] then EmptyLine else RegularParagraph)"
proof -
  have "numbered_match (c # r) = None"
    using assms by (simp add: numbered_match_def)
  moreover have "image_match (c # r) = None"
    using assms by (auto simp: image_match_def Let_def)
  ultimately show ?thesis
    using assms by (simp add: classify_def)
qed

lemma isspace_not_marker: "isspace c \<Longrightarrow> c \<notin> set ''`#-*!'' \<and> \<not> isdecimal c"
  by (auto simp: isspace_def isdecimal_def Let_def)

lemma classify_table:
  assumes "CHR ''|'' \<in> set line" "startswith (strip line) ''|''"
  shows "classify False line = Table"
proof -
  from strip_startswith [OF assms(2)] obtain ws r
    where line: "line = ws @ CHR ''|'' # r" and ws: "list_all isspace ws"
    by blast
  show ?thesis
  proof (cases ws)
    case Nil
    have "classify False (CHR ''|'' # r) = Table"
      using assms unfolding line Nil
      by (subst classify_other_first_char) (simp_all add: isdecimal_def)
    then show ?thesis by (simp add: line Nil)
  next
    case (Cons w ws')
    then have "isspace w" using ws by simp
    then have "classify False (w # ws' @ CHR ''|'' # r) = Table"
      using assms unfolding line Cons
      by (subst classify_other_first_char) (use isspace_not_marker in auto)
    then show ?thesis by (simp add: line Cons)
  qed
qed

text \<open>
  What the code does with a table-row line, a line that contains \<open>|\<close> and whose
  stripped form starts with \<open>|\<close>: outside a code block the line appends nothing when
  every piece between its first and its last \<open>|\<close>, stripped, consists of dashes only,
  and otherwise appends one paragraph holding the line as it is.
\<close>

lemma table_row_effect:
  "CHR ''|'' \<in> set line \<Longrightarrow> startswith (strip line) ''|'' \<Longrightarrow> \<not> code_block st \<Longrightarrow>
     process_line env st line =
       (if (\<forall>c \<in> set (cells line). set c \<subseteq> {CHR ''-''}) then st
        else add [TextParagraph line] st)"
  by (simp add: process_line_def classify_table branch_body_def separator_line_iff)

lemma table_row_effect_example:
  "CHR ''|'' \<in> set ''|---|---|'' \<and> startswith (strip ''|---|---|'') ''|''
   \<and> \<not> code_block initial_state
   \<and> process_line sample_env initial_state ''|---|---|'' = initial_state
   \<and> CHR ''|'' \<in> set ''| a | b |'' \<and> startswith (strip ''| a | b |'') ''|''
   \<and> process_line sample_env initial_state ''| a | b |'' =
       add [TextParagraph ''| a | b |''] initial_state"
proof -
  have s1: "strip ''|---|---|'' = ''|---|---|''" by code_simp
  have s2: "strip ''| a | b |'' = ''| a | b |''" by code_simp
  have c1: "cells ''|---|---|'' = [''---'', ''---'']" by code_simp
  have c2: "cells ''| a | b |'' = [''a'', ''b'']" by code_simp
  show ?thesis
    using table_row_effect [of "''|---|---|''" initial_state sample_env]
      table_row_effect [of "''| a | b |''" initial_state sample_env]
    by (simp add: s1 s2 c1 c2 initial_state_def)
qed

text \<open>
  C5. The specification has a table-row line dropped when its cells consist of dashes
  only, and emitted with its raw text otherwise. The code looks at the pieces between the
  first and the last \<open>|\<close> only: the text after the last \<open>|\<close> is not among them.
  The row \<open>| a\<close> has the cell \<open>a\<close> and no closing \<open>|\<close>; the code finds no
  piece at all, takes the row for a separator and drops it. The row \<open>| --- | b\<close> is
  dropped in the same way, while \<open>| a |\<close> is emitted.
\<close>

theorem row_without_closing_pipe_dropped:
  "CHR ''|'' \<in> set ''| a'' \<and> startswith (strip ''| a'') ''|''
   \<and> classify False ''| a'' = Table
   \<and> split ''| a'' (CHR ''|'') = [[], '' a'']
   \<and> cells ''| a'' = []
   \<and> separator_line ''| a''
   \<and> process_line sample_env initial_state ''| a'' = initial_state
   \<and> process_line sample_env initial_state ''| --- | b'' = initial_state
   \<and> process_line sample_env initial_state ''| a |'' =
       add [TextParagraph ''| a |''] initial_state"
  by code_simp

section \<open>Images\<close>








text \<open>The rewriting of an image path: what holds on every path.\<close>

lemma rewrite_img_path_other:
  "\<not> startswith img_path ''../charts/'' \<Longrightarrow> rewrite_img_path img_path = img_path"
  by (simp add: rewrite_img_path_def)

lemma rewrite_img_path_charts:
  "rewrite_img_path (''../charts/'' @ r) =
     ''outputs/charts/'' @ replace r ''../charts/'' ''outputs/charts/''"
  unfolding rewrite_img_path_def
  by (subst replace.simps) simp

text \<open>
  C7. The specification has only the leading \<open>../charts/\<close> of an image path replaced
  by \<open>outputs/charts/\<close>. The code replaces every occurrence: the path
  \<open>../charts/a/../charts/b.png\<close> is looked up as
  \<open>outputs/charts/a/outputs/charts/b.png\<close>.
\<close>

theorem chart_rewrite_every_occurrence:
  "rewrite_img_path ''../charts/a/../charts/b.png'' = ''outputs/charts/a/outputs/charts/b.png''
   \<and> doc (process_line sample_env initial_state ''![c](../charts/a/../charts/b.png)'') =
       [Heading 0 ''Data Analysis Report'',
        TextParagraph
          ''[Image: c - File not found: outputs/charts/a/outputs/charts/b.png]'']"
  by code_simp

section \<open>Inline formatting: bold before italic\<close>

lemma foldl_append_tagged:
  "foldl (\<lambda>acc m. acc @ [(f, m)]) acc ms = acc @ map (Pair f) ms"
  by (induction ms arbitrary: acc) auto

lemma foldl_append_italic:
  "foldl (\<lambda>acc m. if \<not> list_ex (Q m) (filter (\<lambda>b. fst b = bold) acc)
                   then acc @ [(italic, m)] else acc) acc ms =
   acc @ map (Pair italic)
           (filter (\<lambda>m. \<not> list_ex (Q m) (filter (\<lambda>b. fst b = bold) acc)) ms)"
  by (induction ms arbitrary: acc) auto

lemma all_matches_eq:
  "all_matches text =
     sort_key (\<lambda>x. m_start (snd x))
       (map (Pair bold) (finditer bold text)
        @ map (Pair italic)
            (filter (\<lambda>m. \<not> (\<exists>b \<in> set (finditer bold text).
                                 m_start b \<le> m_start m \<and> m_start m < m_end b))
               (finditer italic text))
        @ map (Pair code) (finditer code text))"
proof -
  have b: "filter (\<lambda>b. fst b = bold) (map (Pair bold) bs) = map (Pair bold) bs" for bs :: "match list"
    by (induction bs) auto
  show ?thesis
    unfolding all_matches_def Let_def foldl_append_tagged foldl_append_italic
    by (simp add: b list_ex_iff)
qed

lemma match_at_nonempty:
  "match_at f t pos = Some m \<Longrightarrow> m_start m = pos \<and> pos < m_end m"
  by (cases f) (auto simp: match_at_def Let_def split: if_splits)

lemma finditer_from_nonempty:
  "m \<in> set (finditer_from f t pos) \<Longrightarrow> pos \<le> m_start m \<and> m_start m < m_end m"
proof (induction f t pos rule: finditer_from.induct)
  case (1 f t pos)
  show ?case
  proof (cases "length t \<le> pos")
    case True
    with "1.prems" show ?thesis
      by (simp add: finditer_from.simps [of f t pos])
  next
    case False
    show ?thesis
    proof (cases "match_at f t pos")
      case None
      with False "1.prems" have "m \<in> set (finditer_from f t (Suc pos))"
        by (simp add: finditer_from.simps [of f t pos])
      with "1.IH"(1) [OF False None] show ?thesis by simp
    next
      case (Some m')
      with False "1.prems" have "m = m' \<or> m \<in> set (finditer_from f t (m_end m'))"
        by (simp add: finditer_from.simps [of f t pos])
      then show ?thesis
      proof
        assume "m = m'"
        with match_at_nonempty [OF Some] show ?thesis by simp
      next
        assume "m \<in> set (finditer_from f t (m_end m'))"
        with "1.IH"(2) [OF False Some] match_at_nonempty [OF Some] show ?thesis by simp
      qed
    qed
  qed
qed

text \<open>
  C8. The paragraph \<open>**a** and *b*\<close> has two matches, the bold one over positions 0 to
  5 and the italic one over positions 10 to 13, which do not overlap; its runs are the
  bold \<open>a\<close>, the plain text between the two and the italic \<open>b\<close>. In every
  paragraph, an italic match that lies inside the span of a bold match is not among the
  matches that are kept.
\<close>

theorem bold_precedence:
  "paragraph_runs ''**a** and *b*'' =
     [(''a'', Some bold), ('' and '', None), (''b'', Some italic)]
   \<and> all_matches ''**a** and *b*'' =
     [(bold, \<lparr>m_start = 0, m_end = 5, group1 = ''a''\<rparr>),
      (italic, \<lparr>m_start = 10, m_end = 13, group1 = ''b''\<rparr>)]
   \<and> (b \<in> set (finditer bold text) \<and> m \<in> set (finditer italic text)
        \<and> m_start b \<le> m_start m \<and> m_end m \<le> m_end b
        \<longrightarrow> (italic, m) \<notin> set (all_matches text))"
proof (intro conjI impI)
  show "paragraph_runs ''**a** and *b*'' =
     [(''a'', Some bold), ('' and '', None), (''b'', Some italic)]"
    by code_simp
  show "all_matches ''**a** and *b*'' =
     [(bold, \<lparr>m_start = 0, m_end = 5, group1 = ''a''\<rparr>),
      (italic, \<lparr>m_start = 10, m_end = 13, group1 = ''b''\<rparr>)]"
    by code_simp
  assume h: "b \<in> set (finditer bold text) \<and> m \<in> set (finditer italic text)
        \<and> m_start b \<le> m_start m \<and> m_end m \<le> m_end b"
  then have "m_start m < m_end m"
    using finditer_from_nonempty [of m italic "text" 0] by (simp add: finditer_def)
  with h have "m_start b \<le> m_start m \<and> m_start m < m_end b"
    by simp
  with h have "\<exists>b \<in> set (finditer bold text). m_start b \<le> m_start m \<and> m_start m < m_end b"
    by blast
  then show "(italic, m) \<notin> set (all_matches text)"
    by (auto simp: all_matches_eq)
qed

theorem bold_precedence_witness:
  "\<lparr>m_start = 0, m_end = 5, group1 = ''a''\<rparr> \<in> set (finditer bold ''**a** and *b*'')
   \<and> \<lparr>m_start = 3, m_end = 5, group1 = ''''\<rparr> \<in> set (finditer italic ''**a** and *b*'')
   \<and> (italic, \<lparr>m_start = 3, m_end = 5, group1 = ''''\<rparr>) \<notin> set (all_matches ''**a** and *b*'')"
proof -
  have 1: "finditer bold ''**a** and *b*'' = [\<lparr>m_start = 0, m_end = 5, group1 = ''a''\<rparr>]"
    by code_simp
  have 2: "finditer italic ''**a** and *b*'' =
      [\<lparr>m_start = 0, m_end = 2, group1 = ''''\<rparr>, \<lparr>m_start = 3, m_end = 5, group1 = ''''\<rparr>,
       \<lparr>m_start = 10, m_end = 13, group1 = ''b''\<rparr>]"
    by code_simp
  show ?thesis
    using bold_precedence [of "\<lparr>m_start = 0, m_end = 5, group1 = ''a''\<rparr>" "''**a** and *b*''"
        "\<lparr>m_start = 3, m_end = 5, group1 = ''''\<rparr>"]
    by (simp add: 1 2)
qed

section \<open>Inline formatting: the text of the runs\<close>

lemma match_at_needs_delimiter:
  "match_at f t pos = Some m \<Longrightarrow> hd (delimiter f) \<in> set t"
proof -
  assume "match_at f t pos = Some m"
  then have "startswith (drop pos t) (delimiter f)"
    by (auto simp: match_at_def Let_def split: if_splits)
  then obtain r where "drop pos t = delimiter f @ r"
    by (auto simp: startswith_iff)
  moreover have "delimiter f \<noteq> []"
    by (cases f) auto
  ultimately have "hd (delimiter f) \<in> set (drop pos t)"
    by (cases "delimiter f") auto
  then show ?thesis
    by (meson in_set_dropD)
qed

lemma finditer_from_no_delimiter:
  "hd (delimiter f) \<notin> set t \<Longrightarrow> finditer_from f t pos = []"
proof (induction f t pos rule: finditer_from.induct)
  case (1 f t pos)
  show ?case
  proof (cases "length t \<le> pos")
    case True
    then show ?thesis
      by (simp add: finditer_from.simps [of f t pos])
  next
    case False
    have none: "match_at f t pos = None"
      using match_at_needs_delimiter [of f t pos] "1.prems" by (cases "match_at f t pos") auto
    with "1.IH"(1) [OF False none "1.prems"] False show ?thesis
      by (simp add: finditer_from.simps [of f t pos])
  qed
qed

text \<open>
  A line without an asterisk and without a backtick has no match, and its paragraph is one
  plain run holding the line as it is.
\<close>

lemma plain_paragraph:
  assumes "CHR ''*'' \<notin> set line" "CHR ''`'' \<notin> set line"
  shows "paragraph_runs line = [(line, None)]"
proof -
  have "finditer f line = []" for f
    using assms finditer_from_no_delimiter [of f line 0]
    by (cases f) (auto simp: finditer_def)
  then have "all_matches line = []"
    by (simp add: all_matches_eq)
  then show ?thesis
    by (simp add: paragraph_runs_def)
qed

text \<open>
  When no kept match starts before the one in front of it has ended, the texts of the runs
  put together are the line without the delimiters of the kept matches.
\<close>

lemma lazy_group_bound:
  "lazy_group d s = Some n \<Longrightarrow> n + length d \<le> length s"
proof (induction s arbitrary: n)
  case Nil
  then show ?case by (simp split: if_splits)
next
  case (Cons c s)
  show ?case
  proof (cases "startswith (c # s) d")
    case True
    with Cons.prems have "n = 0" by simp
    moreover from True obtain r where "c # s = d @ r"
      by (auto simp: startswith_iff)
    then have "length (c # s) = length d + length r"
      by (metis length_append)
    then have "length d \<le> length (c # s)"
      by simp
    ultimately show ?thesis by simp
  next
    case False
    with Cons.prems obtain k where "lazy_group d s = Some k" "n = Suc k"
      by (auto split: if_splits)
    with Cons.IH show ?thesis by simp
  qed
qed

lemma match_at_well_formed:
  assumes "match_at f t pos = Some m"
  shows "well_formed t (f, m)"
proof -
  let ?d = "delimiter f"
  from assms obtain n where n: "lazy_group ?d (drop (length ?d) (drop pos t)) = Some n"
    and m: "m = \<lparr>m_start = pos, m_end = pos + length ?d + n + length ?d,
                 group1 = take n (drop (length ?d) (drop pos t))\<rparr>"
    by (auto simp: match_at_def Let_def split: if_splits)
  from lazy_group_bound [OF n] have "n + length ?d \<le> length t - pos - length ?d"
    by simp
  moreover from assms have "startswith (drop pos t) ?d"
    by (auto simp: match_at_def Let_def split: if_splits)
  then obtain r where "drop pos t = ?d @ r"
    by (auto simp: startswith_iff)
  then have "length (drop pos t) = length ?d + length r"
    by (metis length_append)
  then have "length ?d \<le> length t - pos"
    by simp
  moreover have "?d \<noteq> []" by (cases f) auto
  ultimately have "pos + length ?d + n + length ?d \<le> length t"
    by (cases "?d") auto
  then show ?thesis
    unfolding well_formed_def m by (simp add: add.commute)
qed

lemma finditer_from_well_formed:
  "m \<in> set (finditer_from f t pos) \<Longrightarrow> well_formed t (f, m)"
proof (induction f t pos rule: finditer_from.induct)
  case (1 f t pos)
  show ?case
  proof (cases "length t \<le> pos")
    case True
    with "1.prems" show ?thesis
      by (simp add: finditer_from.simps [of f t pos])
  next
    case False
    show ?thesis
    proof (cases "match_at f t pos")
      case None
      with False "1.prems" have "m \<in> set (finditer_from f t (Suc pos))"
        by (simp add: finditer_from.simps [of f t pos])
      with "1.IH"(1) [OF False None] show ?thesis by simp
    next
      case (Some m')
      with False "1.prems" have "m = m' \<or> m \<in> set (finditer_from f t (m_end m'))"
        by (simp add: finditer_from.simps [of f t pos])
      then show ?thesis
      proof
        assume "m = m'"
        with match_at_well_formed [OF Some] show ?thesis by simp
      next
        assume "m \<in> set (finditer_from f t (m_end m'))"
        with "1.IH"(2) [OF False Some] show ?thesis by simp
      qed
    qed
  qed
qed

lemma all_matches_well_formed:
  "x \<in> set (all_matches line) \<Longrightarrow> well_formed line x"
  by (auto simp: all_matches_eq finditer_def dest: finditer_from_well_formed)

lemma map_nth_upt:
  "b \<le> length t \<Longrightarrow> map (nth t) [a..<b] = take (b - a) (drop a t)"
  by (rule nth_equalityI) auto

lemma no_delimiter_before:
  "separate_from pos ms \<Longrightarrow> list_all (well_formed t) ms \<Longrightarrow> i < pos \<Longrightarrow> \<not> delimiter_at ms i"
proof (induction ms arbitrary: pos)
  case Nil
  then show ?case by (simp add: delimiter_at_def)
next
  case (Cons x ms)
  from Cons.prems have x: "pos \<le> m_start (snd x)" "separate_from (m_end (snd x)) ms"
    "well_formed t x" "list_all (well_formed t) ms"
    by simp_all
  from x(3) have "m_start (snd x) + 2 * length (delimiter (fst x)) \<le> m_end (snd x)"
    by (simp add: well_formed_def)
  then have le: "m_start (snd x) + length (delimiter (fst x)) \<le> m_end (snd x)"
    "m_start (snd x) \<le> m_end (snd x) - length (delimiter (fst x))"
    by linarith+
  with x(1) Cons.prems(3) have "i < m_end (snd x)"
    by simp
  with Cons.IH [OF x(2) x(4)] have "\<not> delimiter_at ms i" .
  moreover have "\<not> (m_start (snd x) \<le> i)"
    using x(1) Cons.prems(3) by simp
  moreover have "\<not> (m_end (snd x) - length (delimiter (fst x)) \<le> i)"
    using x(1) le(2) Cons.prems(3) by simp
  ultimately show ?case
    by (simp add: delimiter_at_def)
qed

lemma upt_split: "a \<le> b \<Longrightarrow> b \<le> c \<Longrightarrow> [a..<c] = [a..<b] @ [b..<c]"
  using upt_add_eq_append [of a b "c - b"] by simp

lemma filter_upt_all: "(\<And>i. a \<le> i \<Longrightarrow> i < b \<Longrightarrow> P i) \<Longrightarrow> filter P [a..<b] = [a..<b]"
  by (simp add: filter_id_conv)

lemma filter_upt_none: "(\<And>i. a \<le> i \<Longrightarrow> i < b \<Longrightarrow> \<not> P i) \<Longrightarrow> filter P [a..<b] = []"
  by (simp add: filter_empty_conv)

lemma delimiter_at_Cons:
  "delimiter_at (x # ms) i \<longleftrightarrow>
     (m_start (snd x) \<le> i \<and> i < m_start (snd x) + length (delimiter (fst x)))
     \<or> (m_end (snd x) - length (delimiter (fst x)) \<le> i \<and> i < m_end (snd x))
     \<or> delimiter_at ms i"
  by (simp add: delimiter_at_def)

lemma add_runs_text:
  "list_all (well_formed t) ms \<Longrightarrow> separate_from cur ms \<Longrightarrow> cur \<le> length t \<Longrightarrow>
     concat (map fst (add_runs t cur ms)) =
       map (nth t) (filter (\<lambda>i. \<not> delimiter_at ms i) [cur..<length t])"
proof (induction ms arbitrary: cur)
  case Nil
  then show ?case
    by (simp add: delimiter_at_def map_nth_upt)
next
  case (Cons x ms)
  obtain f m where x: "x = (f, m)" by (cases x)
  define s e d n where "s = m_start m" and "e = m_end m" and "d = length (delimiter f)"
    and "n = length t"
  note defs = s_def e_def d_def n_def
  from Cons.prems have wf: "well_formed t (f, m)" and wfs: "list_all (well_formed t) ms"
    and sep: "separate_from e ms" and cs: "cur \<le> s"
    by (simp_all add: x defs)
  from wf have b: "s + 2 * d \<le> e" "e \<le> n"
    and g: "group1 m = take (e - s - 2 * d) (drop (s + d) t)"
    by (simp_all add: well_formed_def defs)
  let ?P = "\<lambda>i. \<not> delimiter_at (x # ms) i"
  have later: "\<not> delimiter_at ms i" if "i < e" for i
    using no_delimiter_before [OF sep wfs that] .
  have P1: "filter ?P [cur..<s] = [cur..<s]"
  proof (rule filter_upt_all)
    fix i assume "cur \<le> i" "i < s"
    with b later [of i] show "?P i"
      unfolding delimiter_at_Cons x by (simp add: defs [symmetric])
  qed
  have P2: "filter ?P [s..<s + d] = []"
  proof (rule filter_upt_none)
    fix i assume "s \<le> i" "i < s + d"
    then show "\<not> ?P i"
      unfolding delimiter_at_Cons x by (simp add: defs [symmetric])
  qed
  have P3: "filter ?P [s + d..<e - d] = [s + d..<e - d]"
  proof (rule filter_upt_all)
    fix i assume "s + d \<le> i" "i < e - d"
    with b later [of i] show "?P i"
      unfolding delimiter_at_Cons x by (simp add: defs [symmetric])
  qed
  have P4: "filter ?P [e - d..<e] = []"
  proof (rule filter_upt_none)
    fix i assume "e - d \<le> i" "i < e"
    then show "\<not> ?P i"
      unfolding delimiter_at_Cons x by (simp add: defs [symmetric])
  qed
  have P5: "filter ?P [e..<n] = filter (\<lambda>i. \<not> delimiter_at ms i) [e..<n]"
  proof (rule filter_cong [OF refl])
    fix i assume "i \<in> set [e..<n]"
    with b show "?P i = (\<not> delimiter_at ms i)"
      unfolding delimiter_at_Cons x by (simp add: defs [symmetric])
  qed
  have "[cur..<n] = [cur..<s] @ [s..<s + d] @ [s + d..<e - d] @ [e - d..<e] @ [e..<n]"
    using cs b by (simp add: upt_split [symmetric])
  then have "filter ?P [cur..<n] =
      [cur..<s] @ [s + d..<e - d] @ filter (\<lambda>i. \<not> delimiter_at ms i) [e..<n]"
    by (simp add: P1 P2 P3 P4 P5)
  then have rhs: "map (nth t) (filter ?P [cur..<n]) =
      take (s - cur) (drop cur t) @ take (e - s - 2 * d) (drop (s + d) t)
      @ map (nth t) (filter (\<lambda>i. \<not> delimiter_at ms i) [e..<n])"
  proof -
    have "e - d - (s + d) = e - s - 2 * d"
      by simp
    then show ?thesis
      using b cs \<open>filter ?P [cur..<n] = _\<close> by (simp add: map_nth_upt n_def)
  qed
  have ih: "concat (map fst (add_runs t e ms)) =
      map (nth t) (filter (\<lambda>i. \<not> delimiter_at ms i) [e..<n])"
    using Cons.IH [OF wfs sep] b by (simp add: n_def)
  have "concat (map fst (add_runs t cur (x # ms))) =
      take (s - cur) (drop cur t) @ group1 m @ concat (map fst (add_runs t e ms))"
    by (simp add: x defs)
  with rhs ih g show ?case
    by (simp add: n_def)
qed

lemma runs_text_without_delimiters:
  "separate_from 0 (all_matches line) \<Longrightarrow>
     concat (map fst (paragraph_runs line)) = without_delimiters line (all_matches line)"
proof -
  assume sep: "separate_from 0 (all_matches line)"
  have wf: "list_all (well_formed line) (all_matches line)"
    by (simp add: list_all_iff all_matches_well_formed)
  show ?thesis
  proof (cases "all_matches line = []")
    case True
    then show ?thesis
      by (simp add: paragraph_runs_def without_delimiters_def delimiter_at_def map_nth)
  next
    case False
    then show ?thesis
      using add_runs_text [OF wf sep] by (simp add: paragraph_runs_def without_delimiters_def)
  qed
qed

lemma runs_text_without_delimiters_example:
  "separate_from 0 (all_matches ''**a** and `b`'')
   \<and> without_delimiters ''**a** and `b`'' (all_matches ''**a** and `b`'') = ''a and b''
   \<and> concat (map fst (paragraph_runs ''**a** and `b`'')) = ''a and b''"
  by code_simp

text \<open>
  C2. The specification has the texts of the runs of a paragraph, put together, equal to
  the line without its delimiters, with nothing repeated and nothing lost. The italic
  matches are checked against the bold ones, the inline-code matches against nothing: in
  the paragraph \<open>`a*b*c`\<close> the italic match lies inside the code match, both are kept, and
  the runs put together read \<open>a*b*cbc`\<close>, with \<open>b\<close> and \<open>c\<close> twice and three
  delimiters left in.
\<close>

theorem overlapping_matches_repeat_text:
  "classify False ''`a*b*c`'' = RegularParagraph
   \<and> all_matches ''`a*b*c`'' =
       [(code, \<lparr>m_start = 0, m_end = 7, group1 = ''a*b*c''\<rparr>),
        (italic, \<lparr>m_start = 2, m_end = 5, group1 = ''b''\<rparr>)]
   \<and> paragraph_runs ''`a*b*c`'' =
       [(''a*b*c'', Some code), (''b'', Some italic), (''c`'', None)]
   \<and> concat (map fst (paragraph_runs ''`a*b*c`'')) = ''a*b*cbc`''"
  by code_simp

end
